theory Spec2Isabelle
  imports Complex_Main "HOL-Library.List_Lexorder" "HOL-Library.Char_ord" "HOL-Library.Sublist"
begin

section \<open>JavaScript values and string helpers\<close>

text \<open>
  The values that cross the IPC boundary and come out of \<^verbatim>\<open>JSON.parse\<close>. Numbers are the
  integers; strings are byte strings, read as ASCII. An object is the list of its own
  properties in insertion order, looked up by the first entry of a key.
\<close>

datatype jsval =
    JUndefined
  | JNull
  | JBool bool
  | JNum int
  | JStr string
  | JArr "jsval list"
  | JObj "(string \<times> jsval) list"

text \<open>JavaScript truthiness, as tested by \<^verbatim>\<open>if (x)\<close> and \<^verbatim>\<open>x || y\<close>.\<close>

fun truthy :: "jsval \<Rightarrow> bool" where
  "truthy JUndefined = False"
| "truthy JNull = False"
| "truthy (JBool b) = b"
| "truthy (JNum n) = (n \<noteq> 0)"
| "truthy (JStr s) = (s \<noteq> [])"
| "truthy (JArr xs) = True"
| "truthy (JObj kvs) = True"

text \<open>Property read \<^verbatim>\<open>v.k\<close> for a key that no prototype defines: reading from
  \<^verbatim>\<open>undefined\<close> or \<^verbatim>\<open>null\<close> throws a TypeError (\<open>None\<close>).\<close>

fun get_field :: "jsval \<Rightarrow> string \<Rightarrow> jsval option" where
  "get_field JUndefined k = None"
| "get_field JNull k = None"
| "get_field (JObj kvs) k = Some (case map_of kvs k of None \<Rightarrow> JUndefined | Some v \<Rightarrow> v)"
| "get_field v k = Some JUndefined"

text \<open>Decimal notation, as \<^verbatim>\<open>String(n)\<close> prints an integer.\<close>

fun string_of_nat :: "nat \<Rightarrow> string" where
  "string_of_nat n =
     (if n < 10 then [''0123456789'' ! n]
      else string_of_nat (n div 10) @ [''0123456789'' ! (n mod 10)])"

declare string_of_nat.simps [simp del]

definition string_of_int :: "int \<Rightarrow> string" where
  "string_of_int i = (if i < 0 then CHR ''-'' # string_of_nat (nat (- i)) else string_of_nat (nat i))"

fun join_with :: "string \<Rightarrow> string list \<Rightarrow> string" where
  "join_with sep [] = []"
| "join_with sep [x] = x"
| "join_with sep (x # y # ys) = x @ sep @ join_with sep (y # ys)"

text \<open>\<^verbatim>\<open>String(v)\<close>, the conversion applied by \<^verbatim>\<open>v + '%'\<close> and by an assignment to
  \<^verbatim>\<open>textContent\<close>. Inside an array \<^verbatim>\<open>null\<close> and \<^verbatim>\<open>undefined\<close> print as the empty string.\<close>

fun js_to_string :: "jsval \<Rightarrow> string" where
  "js_to_string JUndefined = ''undefined''"
| "js_to_string JNull = ''null''"
| "js_to_string (JBool b) = (if b then ''true'' else ''false'')"
| "js_to_string (JNum n) = string_of_int n"
| "js_to_string (JStr s) = s"
| "js_to_string (JArr xs) =
     join_with '','' (map (\<lambda>x. if x = JNull \<or> x = JUndefined then [] else js_to_string x) xs)"
| "js_to_string (JObj kvs) = ''[object Object]''"

text \<open>\<^verbatim>\<open>s.indexOf(pat)\<close>: the index of the first occurrence.\<close>

fun find_sub :: "string \<Rightarrow> string \<Rightarrow> nat option" where
  "find_sub pat [] = (if pat = [] then Some 0 else None)"
| "find_sub pat (c # cs) =
     (if prefix pat (c # cs) then Some 0 else map_option Suc (find_sub pat cs))"

text \<open>\<^verbatim>\<open>s.lastIndexOf(c)\<close> for a single character.\<close>

fun last_index_of :: "char \<Rightarrow> string \<Rightarrow> nat option" where
  "last_index_of c [] = None"
| "last_index_of c (x # xs) =
     (case last_index_of c xs of
        Some i \<Rightarrow> Some (Suc i)
      | None \<Rightarrow> if x = c then Some 0 else None)"

text \<open>\<^verbatim>\<open>s.replace(pat, rep)\<close> with a string pattern: only the first occurrence.\<close>

definition replace_first :: "string \<Rightarrow> string \<Rightarrow> string \<Rightarrow> string" where
  "replace_first pat rep s =
     (case find_sub pat s of
        None \<Rightarrow> s
      | Some i \<Rightarrow> take i s @ rep @ drop (i + length pat) s)"

text \<open>\<^verbatim>\<open>s.split(c)\<close> for a single character: \<^verbatim>\<open>"a\nb\n"\<close> gives three pieces, the last
  one empty.\<close>

fun split_on :: "char \<Rightarrow> string \<Rightarrow> string list" where
  "split_on c [] = [[]]"
| "split_on c (x # xs) =
     (if x = c then [] # split_on c xs
      else (case split_on c xs of
              [] \<Rightarrow> [[x]]
            | l # ls \<Rightarrow> (x # l) # ls))"

definition is_space :: "char \<Rightarrow> bool" where
  "is_space c = (c \<in> set [CHR 0x09, CHR 0x0A, CHR 0x0B, CHR 0x0C, CHR 0x0D, CHR 0x20])"

text \<open>\<^verbatim>\<open>s.trim()\<close> on ASCII white space.\<close>

definition trim :: "string \<Rightarrow> string" where
  "trim s = rev (dropWhile is_space (rev (dropWhile is_space s)))"

section \<open>The main process\<close>

text \<open>
  The functions of the platform that the main process calls and whose code is not part of
  the program: \<^verbatim>\<open>path.join\<close>, \<^verbatim>\<open>JSON.stringify\<close> (which may return \<^verbatim>\<open>undefined\<close>) and
  \<^verbatim>\<open>JSON.parse\<close> (\<open>None\<close> when it throws). Every theorem below holds for any choice of them.
\<close>

record node_lib =
  path_join :: "string list \<Rightarrow> string"
  json_stringify :: "jsval \<Rightarrow> jsval"
  json_parse :: "string \<Rightarrow> jsval option"

record app_env =
  isPackaged :: bool
  resourcesPath :: string
  userDataPath :: string
  dirname :: string

definition getPythonPath :: "app_env \<Rightarrow> string" where
  "getPythonPath e = (if isPackaged e then ''python'' else ''python'')"

definition getCategorizerPath :: "node_lib \<Rightarrow> app_env \<Rightarrow> string" where
  "getCategorizerPath L e =
     (if isPackaged e then path_join L [resourcesPath e, ''python'', ''categorizer.py'']
      else path_join L [dirname e, ''..'', ''python'', ''categorizer.py''])"

definition getLogsPath :: "node_lib \<Rightarrow> app_env \<Rightarrow> string" where
  "getLogsPath L e =
     (if isPackaged e then path_join L [userDataPath e, ''logs'']
      else path_join L [dirname e, ''..'', ''..'', ''logs''])"

subsection \<open>runPython\<close>

text \<open>
  The promise returned by \<^verbatim>\<open>runPython\<close> settles once: \<open>Resolved v\<close> or \<open>Rejected message\<close>.
  What the child process does is a list of events in the order the event loop delivers
  them; the exit code of a \<^verbatim>\<open>close\<close> event is a number or \<^verbatim>\<open>null\<close>.
\<close>

datatype outcome = Resolved jsval | Rejected string

datatype proc_event =
    StdoutData string
  | StderrData string
  | CloseEv "int option"
  | ErrorEv string

text \<open>The module-level state: the shared \<^verbatim>\<open>pythonProcess\<close> reference (a process handle or
  \<^verbatim>\<open>null\<close>) and the messages sent to the renderer through \<^verbatim>\<open>mainWindow.webContents.send\<close>,
  oldest first. The window is taken to exist while a run is served.\<close>

record main_state =
  pythonProcess :: "nat option"
  outbox :: "(string \<times> jsval) list"

text \<open>The variables one call of \<^verbatim>\<open>runPython\<close> closes over.\<close>

record run_closure =
  stdout :: string
  stderr :: string
  settled :: "outcome option"

definition fresh_closure :: run_closure where
  "fresh_closure = \<lparr>stdout = [], stderr = [], settled = None\<rparr>"

definition send :: "string \<Rightarrow> jsval \<Rightarrow> main_state \<Rightarrow> main_state" where
  "send channel payload m = m\<lparr>outbox := outbox m @ [(channel, payload)]\<rparr>"

text \<open>\<^verbatim>\<open>resolve\<close> and \<^verbatim>\<open>reject\<close>: only the first call has an effect.\<close>

definition settle :: "outcome \<Rightarrow> run_closure \<Rightarrow> run_closure" where
  "settle out r = (if settled r = None then r\<lparr>settled := Some out\<rparr> else r)"

text \<open>The body of the \<^verbatim>\<open>forEach\<close> over the lines of one chunk, inside the \<^verbatim>\<open>try\<close>: an
  exception of \<^verbatim>\<open>JSON.parse\<close> leaves the loop, and the \<^verbatim>\<open>catch\<close> swallows it.\<close>

fun forward_lines :: "node_lib \<Rightarrow> string list \<Rightarrow> main_state \<Rightarrow> main_state" where
  "forward_lines L [] m = m"
| "forward_lines L (line # ls) m =
     (if prefix ''PROGRESS:'' line then
        (case json_parse L (replace_first ''PROGRESS:'' [] line) of
           None \<Rightarrow> m
         | Some progress \<Rightarrow> forward_lines L ls (send ''progress-update'' progress m))
      else forward_lines L ls m)"

definition on_stdout :: "node_lib \<Rightarrow> string \<Rightarrow> main_state \<times> run_closure \<Rightarrow> main_state \<times> run_closure" where
  "on_stdout L chunk s =
     (case s of (m, r) \<Rightarrow>
        (forward_lines L (split_on CHR 0x0A chunk) m, r\<lparr>stdout := stdout r @ chunk\<rparr>))"

definition on_stderr :: "string \<Rightarrow> main_state \<times> run_closure \<Rightarrow> main_state \<times> run_closure" where
  "on_stderr chunk s =
     (case s of (m, r) \<Rightarrow>
        (send ''log-message'' (JObj [(''type'', JStr ''error''), (''message'', JStr chunk)]) m,
         r\<lparr>stderr := stderr r @ chunk\<rparr>))"

text \<open>The capture group of \<^verbatim>\<open>/RESULT:([\s\S]*?)(?:$|PROGRESS:)/\<close>: the text after the first
  \<^verbatim>\<open>RESULT:\<close>, up to the next \<^verbatim>\<open>PROGRESS:\<close> or else to the end of the output; \<open>None\<close> when
  the output has no \<^verbatim>\<open>RESULT:\<close>.\<close>

definition result_match :: "string \<Rightarrow> string option" where
  "result_match out =
     (case find_sub ''RESULT:'' out of
        None \<Rightarrow> None
      | Some i \<Rightarrow>
          (let rest = drop (i + 7) out in
           Some (case find_sub ''PROGRESS:'' rest of None \<Rightarrow> rest | Some j \<Rightarrow> take j rest)))"

definition raw_result :: "string \<Rightarrow> jsval" where
  "raw_result out = JObj [(''success'', JBool True), (''raw'', JStr out)]"

text \<open>The value the \<^verbatim>\<open>close\<close> handler resolves with after exit code 0.\<close>

definition close_value :: "node_lib \<Rightarrow> string \<Rightarrow> jsval" where
  "close_value L out =
     (case result_match out of
        Some g \<Rightarrow>
          (case json_parse L (trim g) of Some v \<Rightarrow> v | None \<Rightarrow> raw_result out)
      | None \<Rightarrow>
          (case last_index_of CHR ''{'' out of
             Some lastJsonStart \<Rightarrow>
               (case json_parse L (drop lastJsonStart out) of
                  Some v \<Rightarrow> v
                | None \<Rightarrow> raw_result out)
           | None \<Rightarrow> JObj [(''success'', JBool True), (''message'', JStr out)]))"

definition show_code :: "int option \<Rightarrow> string" where
  "show_code code = (case code of None \<Rightarrow> ''null'' | Some c \<Rightarrow> string_of_int c)"

definition close_outcome :: "node_lib \<Rightarrow> int option \<Rightarrow> string \<Rightarrow> string \<Rightarrow> outcome" where
  "close_outcome L code out err =
     (if code = Some 0 then Resolved (close_value L out)
      else Rejected (if err \<noteq> [] then err
                     else ''Python process exited with code '' @ show_code code))"

definition on_close :: "node_lib \<Rightarrow> int option \<Rightarrow> main_state \<times> run_closure \<Rightarrow> main_state \<times> run_closure" where
  "on_close L code s =
     (case s of (m, r) \<Rightarrow>
        (m\<lparr>pythonProcess := None\<rparr>, settle (close_outcome L code (stdout r) (stderr r)) r))"

definition on_error :: "string \<Rightarrow> main_state \<times> run_closure \<Rightarrow> main_state \<times> run_closure" where
  "on_error msg s =
     (case s of (m, r) \<Rightarrow> (m\<lparr>pythonProcess := None\<rparr>, settle (Rejected msg) r))"

fun handle_event :: "node_lib \<Rightarrow> main_state \<times> run_closure \<Rightarrow> proc_event \<Rightarrow> main_state \<times> run_closure" where
  "handle_event L s (StdoutData chunk) = on_stdout L chunk s"
| "handle_event L s (StderrData chunk) = on_stderr chunk s"
| "handle_event L s (CloseEv code) = on_close L code s"
| "handle_event L s (ErrorEv msg) = on_error msg s"

text \<open>
  What \<^verbatim>\<open>spawn\<close> does with a command line: it throws (an argument that is not a string, for
  one), or it returns a child whose events follow. The backend is a function of the command
  line; \<open>h\<close> is the handle of the new child.
\<close>

datatype behaviour = SpawnThrows string | Spawned "proc_event list"

type_synonym backend = "string \<Rightarrow> jsval list \<Rightarrow> behaviour"

definition spawn_command :: "node_lib \<Rightarrow> app_env \<Rightarrow> jsval list \<Rightarrow> string \<times> jsval list" where
  "spawn_command L e args = (getPythonPath e, JStr (getCategorizerPath L e) # args)"

text \<open>One call of \<^verbatim>\<open>runPython\<close> served to the end of the child's events: the state of the
  module afterwards and the state of the promise (\<open>None\<close>: still pending).\<close>

definition runPython ::
  "node_lib \<Rightarrow> app_env \<Rightarrow> backend \<Rightarrow> nat \<Rightarrow> jsval list \<Rightarrow> main_state \<Rightarrow> main_state \<times> outcome option" where
  "runPython L e world h args m =
     (case spawn_command L e args of (pythonPath, fullArgs) \<Rightarrow>
        (case world pythonPath fullArgs of
           SpawnThrows msg \<Rightarrow> (m, Some (Rejected msg))
         | Spawned evs \<Rightarrow>
             (case foldl (handle_event L) (m\<lparr>pythonProcess := Some h\<rparr>, fresh_closure) evs of
                (m', r) \<Rightarrow> (m', settled r))))"

subsection \<open>IPC handlers\<close>

text \<open>The object the renderer passes to \<^verbatim>\<open>simulate\<close> and \<^verbatim>\<open>categorize\<close>: it always has these
  three properties.\<close>

record options =
  folderPath :: jsval
  modes :: jsval
  advancedOptions :: jsval

text \<open>\<^verbatim>\<open>try { return await runPython(args) } catch (error) { return {success: false, error:
  error.message} }\<close>.\<close>

fun reply :: "outcome \<Rightarrow> jsval" where
  "reply (Resolved result) = result"
| "reply (Rejected message) = JObj [(''success'', JBool False), (''error'', JStr message)]"

definition scan_args :: "jsval \<Rightarrow> jsval list" where
  "scan_args folder = [JStr ''--scan'', folder]"

definition simulate_args :: "node_lib \<Rightarrow> app_env \<Rightarrow> options \<Rightarrow> jsval list" where
  "simulate_args L e opts =
     [JStr ''--simulate'',
      JStr ''--folder'', folderPath opts,
      JStr ''--modes'', json_stringify L (modes opts),
      JStr ''--options'',
        json_stringify L (if truthy (advancedOptions opts) then advancedOptions opts else JObj []),
      JStr ''--logs-path'', JStr (getLogsPath L e)]"

definition categorize_args :: "node_lib \<Rightarrow> app_env \<Rightarrow> options \<Rightarrow> jsval list" where
  "categorize_args L e opts =
     [JStr ''--execute'',
      JStr ''--folder'', folderPath opts,
      JStr ''--modes'', json_stringify L (modes opts),
      JStr ''--options'',
        json_stringify L (if truthy (advancedOptions opts) then advancedOptions opts else JObj []),
      JStr ''--logs-path'', JStr (getLogsPath L e)]"

definition undo_args :: "node_lib \<Rightarrow> app_env \<Rightarrow> jsval list" where
  "undo_args L e = [JStr ''--undo'', JStr ''--logs-path'', JStr (getLogsPath L e)]"

definition serve ::
  "node_lib \<Rightarrow> app_env \<Rightarrow> backend \<Rightarrow> nat \<Rightarrow> jsval list \<Rightarrow> main_state \<Rightarrow> main_state \<times> jsval option" where
  "serve L e world h args m =
     (case runPython L e world h args m of (m', out) \<Rightarrow> (m', map_option reply out))"

definition scan_folder_handler ::
  "node_lib \<Rightarrow> app_env \<Rightarrow> backend \<Rightarrow> nat \<Rightarrow> jsval \<Rightarrow> main_state \<Rightarrow> main_state \<times> jsval option" where
  "scan_folder_handler L e world h folder m = serve L e world h (scan_args folder) m"

definition simulate_handler ::
  "node_lib \<Rightarrow> app_env \<Rightarrow> backend \<Rightarrow> nat \<Rightarrow> options \<Rightarrow> main_state \<Rightarrow> main_state \<times> jsval option" where
  "simulate_handler L e world h opts m = serve L e world h (simulate_args L e opts) m"

definition categorize_handler ::
  "node_lib \<Rightarrow> app_env \<Rightarrow> backend \<Rightarrow> nat \<Rightarrow> options \<Rightarrow> main_state \<Rightarrow> main_state \<times> jsval option" where
  "categorize_handler L e world h opts m = serve L e world h (categorize_args L e opts) m"

definition undo_handler ::
  "node_lib \<Rightarrow> app_env \<Rightarrow> backend \<Rightarrow> nat \<Rightarrow> main_state \<Rightarrow> main_state \<times> jsval option" where
  "undo_handler L e world h m = serve L e world h (undo_args L e) m"

text \<open>The logs directory as \<^verbatim>\<open>get-last-operation\<close> reads it: \<^verbatim>\<open>fs.readdirSync\<close> and
  \<^verbatim>\<open>fs.readFileSync\<close>, \<open>None\<close> when they throw.\<close>

record disk =
  readdirSync :: "string \<Rightarrow> string list option"
  readFileSync :: "string \<Rightarrow> string option"

definition is_operation_log :: "string \<Rightarrow> bool" where
  "is_operation_log f = (prefix ''operation_'' f \<and> suffix ''.json'' f)"

definition get_last_operation :: "node_lib \<Rightarrow> app_env \<Rightarrow> disk \<Rightarrow> jsval" where
  "get_last_operation L e d =
     (let logsPath = getLogsPath L e in
      case readdirSync d logsPath of
        None \<Rightarrow> JNull
      | Some names \<Rightarrow>
          (let logFiles = rev (sort (filter is_operation_log names)) in
           if length logFiles = 0 then JNull
           else (case readFileSync d (path_join L [logsPath, logFiles ! 0]) of
                   None \<Rightarrow> JNull
                 | Some lastLog \<Rightarrow>
                     (case json_parse L lastLog of None \<Rightarrow> JNull | Some v \<Rightarrow> v))))"

subsection \<open>Reading an event list\<close>

text \<open>The events that carry output, and the text they add up to on each stream.\<close>

fun is_data :: "proc_event \<Rightarrow> bool" where
  "is_data (StdoutData chunk) = True"
| "is_data (StderrData chunk) = True"
| "is_data (CloseEv code) = False"
| "is_data (ErrorEv msg) = False"

fun stdout_text :: "proc_event list \<Rightarrow> string" where
  "stdout_text [] = []"
| "stdout_text (StdoutData chunk # evs) = chunk @ stdout_text evs"
| "stdout_text (ev # evs) = stdout_text evs"

fun stderr_text :: "proc_event list \<Rightarrow> string" where
  "stderr_text [] = []"
| "stderr_text (StderrData chunk # evs) = chunk @ stderr_text evs"
| "stderr_text (ev # evs) = stderr_text evs"

subsection \<open>Sample inputs\<close>

text \<open>
  A platform library for the concrete runs below: paths are joined with a slash, and the
  parser knows three documents. It agrees with \<^verbatim>\<open>JSON.parse\<close> on these three and on every
  text that is not JSON; the runs below parse nothing else.
\<close>

definition sample_parse :: "string \<Rightarrow> jsval option" where
  "sample_parse s =
     map_of
       [([CHR ''{'', CHR 0x22] @ ''percent'' @ [CHR 0x22] @ '':50}'',
           JObj [(''percent'', JNum 50)]),
        ([CHR ''{'', CHR 0x22] @ ''success'' @ [CHR 0x22] @ '':true}'',
           JObj [(''success'', JBool True)]),
        (''{}'', JObj [])] s"

definition sample_lib :: node_lib where
  "sample_lib =
     \<lparr>path_join = join_with ''/'', json_stringify = (\<lambda>v. JUndefined), json_parse = sample_parse\<rparr>"

definition sample_env :: app_env where
  "sample_env =
     \<lparr>isPackaged = True, resourcesPath = ''/opt/app/resources'', userDataPath = ''/home/u/app'',
      dirname = ''/opt/app/src/main''\<rparr>"

definition sample_disk :: disk where
  "sample_disk =
     \<lparr>readdirSync = (\<lambda>p. if p = ''/home/u/app/logs''
          then Some [''operation_20240101_120000.json'', ''readme.txt'',
                     ''operation_20240204_154800.json'', ''operation_old.json.bak'']
          else None),
      readFileSync = (\<lambda>p. if p = ''/home/u/app/logs/operation_20240204_154800.json''
          then Some ''{}'' else None)\<rparr>"

definition idle :: main_state where
  "idle = \<lparr>pythonProcess = None, outbox = []\<rparr>"

text \<open>A backend that prints to stderr and exits with code 1, whatever the command line.\<close>

definition failing_backend :: backend where
  "failing_backend pythonPath fullArgs = Spawned [StderrData ''boom'', CloseEv (Some 1)]"


text \<open>Two backends that write the same bytes: one progress line and the result. The first
  writes the progress line in one chunk, the second in two.\<close>

definition whole_backend :: backend where
  \<open>whole_backend pythonPath fullArgs =
     Spawned [StdoutData (''PROGRESS:{"percent":50}'' @ [CHR 0x0A]),
              StdoutData (''RESULT:{"success":true}'' @ [CHR 0x0A]),
              CloseEv (Some 0)]\<close>

definition split_backend :: backend where
  \<open>split_backend pythonPath fullArgs =
     Spawned [StdoutData ''PROGRESS:{"perc'',
              StdoutData (''ent":50}'' @ [CHR 0x0A]),
              StdoutData (''RESULT:{"success":true}'' @ [CHR 0x0A]),
              CloseEv (Some 0)]\<close>

section \<open>The renderer\<close>

text \<open>
  The two places of the page that the progress listener writes: the string assigned to
  \<^verbatim>\<open>dom.progressFill.style.width\<close> and \<^verbatim>\<open>dom.progressText.textContent\<close>.
\<close>

record page =
  progressFill_width :: string
  progressText :: string

text \<open>The callback of \<^verbatim>\<open>onProgressUpdate\<close> in \<^verbatim>\<open>setupProgressListeners\<close>; \<open>None\<close> when it
  throws.\<close>

definition onProgressUpdate :: "jsval \<Rightarrow> page \<Rightarrow> page option" where
  "onProgressUpdate data d =
     (case get_field data ''percent'' of
        None \<Rightarrow> None
      | Some percent \<Rightarrow>
          (let d1 = (if percent \<noteq> JUndefined
                     then d\<lparr>progressFill_width := js_to_string percent @ ''%''\<rparr> else d) in
           case get_field data ''message'' of
             None \<Rightarrow> None
           | Some message \<Rightarrow>
               Some (if truthy message then d1\<lparr>progressText := js_to_string message\<rparr> else d1)))"

text \<open>The preload script hands the payload of a \<^verbatim>\<open>progress-update\<close> message to that callback.
  A \<^verbatim>\<open>log-message\<close> goes to the log panel, which is not part of \<open>page\<close>.\<close>

definition receive :: "string \<times> jsval \<Rightarrow> page \<Rightarrow> page option" where
  "receive msg d =
     (case msg of (channel, data) \<Rightarrow>
        if channel = ''progress-update'' then onProgressUpdate data d else Some d)"

text \<open>The lines of a chunk that the stdout handler takes for progress reports.\<close>

definition progress_lines :: "string \<Rightarrow> string list" where
  "progress_lines chunk = filter (prefix ''PROGRESS:'') (split_on CHR 0x0A chunk)"

section \<open>Cancelling\<close>












section \<open>The similarity engine\<close>

text \<open>
  The backend is a Python program (\<^verbatim>\<open>categorizer.py\<close>, \<^verbatim>\<open>similarity.py\<close>, \<^verbatim>\<open>undo_manager.py\<close>)
  whose code is not among the sources. What follows is written from its specification.
  Scores are exact rationals. The Jaro-Winkler score is not modelled; the clustering takes
  the score as a parameter.
\<close>

text \<open>Modelled from the spec: the Levenshtein score of \<^verbatim>\<open>similarity.py\<close>, which is missing;
  "classic edit distance".\<close>

fun levenshtein :: "string \<Rightarrow> string \<Rightarrow> nat" where
  "levenshtein [] ys = length ys"
| "levenshtein (x # xs) [] = Suc (length xs)"
| "levenshtein (x # xs) (y # ys) =
     min (min (levenshtein xs (y # ys) + 1) (levenshtein (x # xs) ys + 1))
         (levenshtein xs ys + (if x = y then 0 else 1))"

text \<open>Modelled from the spec: the Levenshtein score of \<^verbatim>\<open>similarity.py\<close>, which is missing;
  "normalized to a similarity score 1 - distance / max(len(a), len(b))". The quotient is not
  defined for two empty stems; the theorems below are about stems that are not empty.\<close>

definition levenshtein_score :: "string \<Rightarrow> string \<Rightarrow> rat" where
  "levenshtein_score a b = 1 - of_nat (levenshtein a b) / of_nat (max (length a) (length b))"



text \<open>A cluster: the stem that founded it, which is the representative that later stems are
  compared with, and its members in the order they joined.\<close>

type_synonym cluster = "string \<times> string list"

text \<open>Modelled from the spec: the threshold test of \<^verbatim>\<open>similarity.py\<close>, which is missing; the
  "threshold is expressed as a percentage (50-100) and compared against score x 100".\<close>

definition reaches :: "(string \<Rightarrow> string \<Rightarrow> rat) \<Rightarrow> nat \<Rightarrow> string \<Rightarrow> string \<Rightarrow> bool" where
  "reaches sc threshold stem representative \<longleftrightarrow> of_nat threshold \<le> sc stem representative * 100"

text \<open>Modelled from the spec: the choice among clusters in \<^verbatim>\<open>similarity.py\<close>, which is
  missing; "the highest score (ties broken by earliest-created cluster)", over pairs of a
  cluster index and a score in the order of creation.\<close>

fun best_of :: "(nat \<times> rat) \<Rightarrow> (nat \<times> rat) list \<Rightarrow> nat" where
  "best_of b [] = fst b"
| "best_of b (c # cs) = best_of (if snd b < snd c then c else b) cs"

text \<open>Modelled from the spec: the comparison of \<^verbatim>\<open>similarity.py\<close>, which is missing; "for
  each unclustered stem compare against every existing cluster representative", keeping
  the clusters whose score reaches the threshold.\<close>

definition candidates ::
  "(string \<Rightarrow> string \<Rightarrow> rat) \<Rightarrow> nat \<Rightarrow> string \<Rightarrow> cluster list \<Rightarrow> (nat \<times> rat) list" where
  "candidates sc threshold stem cs =
     map (\<lambda>(i, c). (i, sc stem (fst c)))
       (filter (\<lambda>(i, c). reaches sc threshold stem (fst c)) (enumerate 0 cs))"

text \<open>Modelled from the spec: one step of the greedy clustering of \<^verbatim>\<open>similarity.py\<close>, which
  is missing; "join the cluster with the highest score >= threshold, else start a new
  singleton cluster".\<close>

definition place ::
  "(string \<Rightarrow> string \<Rightarrow> rat) \<Rightarrow> nat \<Rightarrow> cluster list \<Rightarrow> string \<Rightarrow> cluster list" where
  "place sc threshold cs stem =
     (case candidates sc threshold stem cs of
        [] \<Rightarrow> cs @ [(stem, [stem])]
      | b # rest \<Rightarrow>
          (let i = best_of b rest in cs[i := (fst (cs ! i), snd (cs ! i) @ [stem])]))"

text \<open>Modelled from the spec: the greedy clustering of \<^verbatim>\<open>similarity.py\<close>, which is missing;
  "process file stems in a stable deterministic order (original scan order)".\<close>

definition cluster_stems ::
  "(string \<Rightarrow> string \<Rightarrow> rat) \<Rightarrow> nat \<Rightarrow> string list \<Rightarrow> cluster list" where
  "cluster_stems sc threshold stems = foldl (place sc threshold) [] stems"



section \<open>Execute and undo\<close>

text \<open>
  The executor and the undo manager are part of the Python backend, whose code is not
  among the sources; they are written here from the specification. A path is the list of
  its segments; a file system is the list of its files with their contents and the list of
  its folders.
\<close>

type_synonym path = "string list"

record filesystem =
  files :: "(path \<times> string) list"
  dirs :: "path list"

definition lookup :: "filesystem \<Rightarrow> path \<Rightarrow> string option" where
  "lookup fs = map_of (files fs)"

text \<open>Modelled from the spec: the test of \<^verbatim>\<open>undo_manager.py\<close>, which is missing, that a folder
  "is now empty": nothing, file or folder, has it as its parent.\<close>

definition is_empty_dir :: "filesystem \<Rightarrow> path \<Rightarrow> bool" where
  "is_empty_dir fs d \<longleftrightarrow> (\<forall>p \<in> fst ` set (files fs) \<union> set (dirs fs). p = [] \<or> butlast p \<noteq> d)"

text \<open>The folders on the way down to \<open>d\<close>, \<open>d\<close> included, parent first.\<close>

definition folders_of :: "path \<Rightarrow> path list" where
  "folders_of d = map (\<lambda>n. take n d) [1..<Suc (length d)]"

text \<open>Modelled from the spec: the step "create the destination folder if absent
  (idempotent)" of the executor in \<^verbatim>\<open>categorizer.py\<close>, which is missing. It fails when a file
  is in the way, and otherwise returns the folders it had to create.\<close>

definition create_folder :: "filesystem \<Rightarrow> path \<Rightarrow> (filesystem \<times> path list) option" where
  "create_folder fs d =
     (if \<exists>p \<in> set (folders_of d). lookup fs p \<noteq> None then None
      else (let new = filter (\<lambda>p. p \<notin> set (dirs fs)) (folders_of d)
            in Some (fs\<lparr>dirs := dirs fs @ new\<rparr>, new)))"

text \<open>Modelled from the spec: a move of the backend, which is missing; "moves are
  local-filesystem renames". It fails when the source is not a file, when the destination
  exists, or when the folder of the destination does not.\<close>

definition move_file :: "filesystem \<Rightarrow> path \<Rightarrow> path \<Rightarrow> filesystem option" where
  "move_file fs src dst =
     (case lookup fs src of
        None \<Rightarrow> None
      | Some content \<Rightarrow>
          if lookup fs dst = None \<and> dst \<notin> set (dirs fs) \<and> dst \<noteq> [] \<and> butlast dst \<in> set (dirs fs)
          then Some (fs\<lparr>files := (dst, content) # filter (\<lambda>(p, c). p \<noteq> src) (files fs)\<rparr>)
          else None)"

text \<open>An entry of the operation log: source, destination, and the folders that were created
  for it, which undo has to know ("every folder the log's entries created").\<close>

record op_entry =
  source :: path
  destination :: path
  made :: "path list"

record report =
  after :: filesystem
  oplog :: "op_entry list"
  errors :: "(path \<times> path) list"

text \<open>Modelled from the spec: the executor of \<^verbatim>\<open>categorizer.py\<close>, which is missing; "for each
  Plan entry, create the destination folder if absent, move the record, append an
  OperationEntry; if a single move fails, record the failure in an errors list, continue
  with the remaining entries". \<open>movable\<close> tells which files the process is permitted to
  move.\<close>

fun execute_plan :: "(path \<Rightarrow> bool) \<Rightarrow> filesystem \<Rightarrow> (path \<times> path) list \<Rightarrow> report" where
  "execute_plan movable fs [] = \<lparr>after = fs, oplog = [], errors = []\<rparr>"
| "execute_plan movable fs ((src, dst) # rest) =
     (case create_folder fs (butlast dst) of
        None \<Rightarrow>
          (let r = execute_plan movable fs rest in r\<lparr>errors := (src, dst) # errors r\<rparr>)
      | Some (fs1, new) \<Rightarrow>
          (case (if movable src then move_file fs1 src dst else None) of
             None \<Rightarrow>
               (let r = execute_plan movable fs1 rest in r\<lparr>errors := (src, dst) # errors r\<rparr>)
           | Some fs2 \<Rightarrow>
               (let r = execute_plan movable fs2 rest
                in r\<lparr>oplog := \<lparr>source = src, destination = dst, made = new\<rparr> # oplog r\<rparr>)))"

text \<open>Modelled from the spec: the replay of \<^verbatim>\<open>undo_manager.py\<close>, which is missing; "moving
  each destination back to its original source path", a move that fails being skipped.
  Permissions are taken not to stand in the way of moving back a file that was moved.\<close>

fun restore :: "filesystem \<Rightarrow> op_entry list \<Rightarrow> filesystem" where
  "restore fs [] = fs"
| "restore fs (e # es) =
     (case move_file fs (destination e) (source e) of
        None \<Rightarrow> restore fs es
      | Some fs' \<Rightarrow> restore fs' es)"

text \<open>Modelled from the spec: the removal of folders in \<^verbatim>\<open>undo_manager.py\<close>, which is missing;
  a created folder "that is now empty is removed (recursively upward, stopping at any
  non-empty ancestor)". The list runs from the deepest folder upward.\<close>

fun remove_while_empty :: "filesystem \<Rightarrow> path list \<Rightarrow> filesystem" where
  "remove_while_empty fs [] = fs"
| "remove_while_empty fs (d # ds) =
     (if d \<in> set (dirs fs) \<and> is_empty_dir fs d
      then remove_while_empty (fs\<lparr>dirs := removeAll d (dirs fs)\<rparr>) ds
      else fs)"

text \<open>Modelled from the spec: the removal of folders in \<^verbatim>\<open>undo_manager.py\<close>, which is missing,
  for "every folder the log's entries created".\<close>

fun prune :: "filesystem \<Rightarrow> op_entry list \<Rightarrow> filesystem" where
  "prune fs [] = fs"
| "prune fs (e # es) = prune (remove_while_empty fs (rev (made e))) es"

text \<open>Modelled from the spec: \<^verbatim>\<open>undo()\<close> of \<^verbatim>\<open>undo_manager.py\<close>, which is missing; it "replays
  its entries in reverse order (last-moved-first)" and removes folders "after all entries
  are processed".\<close>

definition undo :: "filesystem \<Rightarrow> op_entry list \<Rightarrow> filesystem" where
  "undo fs entries = prune (restore fs (rev entries)) (rev entries)"

text \<open>A file system is well formed when the root is a folder, the parent of a folder is a
  folder, and a file is no folder and lies in a folder.\<close>

definition well_formed :: "filesystem \<Rightarrow> bool" where
  "well_formed fs \<longleftrightarrow>
     [] \<in> set (dirs fs)
     \<and> (\<forall>p \<in> set (dirs fs). butlast p \<in> set (dirs fs))
     \<and> (\<forall>p \<in> fst ` set (files fs). p \<notin> set (dirs fs) \<and> butlast p \<in> set (dirs fs))"





section \<open>Simulate and execute are started on the same inputs\<close>


section \<open>The last operation log\<close>

lemma sorted_le_last:
  fixes ys :: "'a::linorder list"
  shows "sorted ys \<Longrightarrow> y \<in> set ys \<Longrightarrow> y \<le> last ys"
  by (induction ys) auto

lemma sort_not_Nil:
  fixes xs :: "'a::linorder list"
  assumes "xs \<noteq> []"
  shows "sort xs \<noteq> []"
proof
  assume "sort xs = []"
  then have "set (sort xs) = {}" by simp
  then have "set xs = {}" by (simp only: set_sort)
  with assms show False by simp
qed

lemma last_sort_Max:
  fixes xs :: "'a::linorder list"
  assumes "xs \<noteq> []"
  shows "last (sort xs) = Max (set xs)"
proof -
  have ne: "sort xs \<noteq> []"
    using assms by (rule sort_not_Nil)
  have mem: "last (sort xs) \<in> set xs"
    using last_in_set [OF ne] by simp
  have ub: "y \<le> last (sort xs)" if "y \<in> set xs" for y
    using sorted_le_last [of "sort xs" y] that by simp
  show ?thesis
    using mem ub by (intro Max_eqI [symmetric]) auto
qed

lemma newest_is_Max:
  assumes "filter is_operation_log names \<noteq> []"
  shows "rev (sort (filter is_operation_log names)) ! 0 = Max (set (filter is_operation_log names))"
proof -
  let ?ms = "filter is_operation_log names"
  have ne: "sort ?ms \<noteq> []"
    using assms by (rule sort_not_Nil)
  then have "rev (sort ?ms) ! 0 = hd (rev (sort ?ms))"
    by (simp add: hd_conv_nth)
  also have "\<dots> = last (sort ?ms)"
    by (simp add: hd_rev)
  finally show ?thesis
    using last_sort_Max [OF assms] by simp
qed

lemma get_last_operation_eq:
  "get_last_operation L e d =
     (case readdirSync d (getLogsPath L e) of
        None \<Rightarrow> JNull
      | Some names \<Rightarrow>
          (if filter is_operation_log names = [] then JNull
           else (case readFileSync d
                        (path_join L [getLogsPath L e, Max (set (filter is_operation_log names))]) of
                   None \<Rightarrow> JNull
                 | Some lastLog \<Rightarrow>
                     (case json_parse L lastLog of None \<Rightarrow> JNull | Some v \<Rightarrow> v))))"
proof (cases "readdirSync d (getLogsPath L e)")
  case None
  then show ?thesis by (simp add: get_last_operation_def)
next
  case (Some names)
  show ?thesis
  proof (cases "filter is_operation_log names = []")
    case True
    with Some show ?thesis by (simp add: get_last_operation_def)
  next
    case False
    then have "sort (filter is_operation_log names) \<noteq> []"
      by (rule sort_not_Nil)
    with Some False newest_is_Max [OF False] show ?thesis
      by (simp add: get_last_operation_def Let_def)
  qed
qed

lemma operation_log_parts:
  assumes "is_operation_log f"
  shows "\<exists>a b. f = ''operation_'' @ a \<and> f = b @ ''.json''"
  using assms unfolding is_operation_log_def prefix_def suffix_def by blast

lemma operation_log_long:
  assumes a: "f = ''operation_'' @ a" and b: "f = b @ ''.json''"
  shows "10 \<le> length b"
proof (rule ccontr)
  have t: "take 10 f = ''operation_''"
    unfolding a by simp
  assume "\<not> 10 \<le> length b"
  then have lt: "length b < 10" by simp
  have "f ! length b = CHR ''.''"
    unfolding b by (simp add: nth_append)
  moreover have "f ! length b = take 10 f ! length b"
    using lt by simp
  moreover have "take 10 f ! length b \<in> set (take 10 f)"
    using lt a by (intro nth_mem) simp
  ultimately show False
    unfolding t by simp
qed

lemma operation_log_middle:
  assumes a: "f = ''operation_'' @ a" and b: "f = b @ ''.json''" and len: "10 \<le> length b"
  shows "\<exists>mid. f = ''operation_'' @ mid @ ''.json''"
proof -
  have "a = drop 10 f"
    unfolding a by simp
  also have "\<dots> = drop 10 b @ ''.json''"
    unfolding b using len by simp
  finally have "f = ''operation_'' @ drop 10 b @ ''.json''"
    using a by simp
  then show ?thesis
    by (rule exI [of _ "drop 10 b"])
qed

lemma operation_log_built:
  "\<exists>mid. f = ''operation_'' @ mid @ ''.json'' \<Longrightarrow> is_operation_log f"
  unfolding is_operation_log_def by (auto simp: suffix_def)

lemma is_operation_log_glob:
  "is_operation_log f \<longleftrightarrow> (\<exists>mid. f = ''operation_'' @ mid @ ''.json'')"
proof (rule iffI)
  assume "is_operation_log f"
  from operation_log_parts [OF this]
  obtain a b where a: "f = ''operation_'' @ a" and b: "f = b @ ''.json''"
    by blast
  show "\<exists>mid. f = ''operation_'' @ mid @ ''.json''"
    using a b operation_log_long [OF a b] by (rule operation_log_middle)
next
  assume "\<exists>mid. f = ''operation_'' @ mid @ ''.json''"
  then show "is_operation_log f"
    by (rule operation_log_built)
qed

text \<open>
  C3. \<^verbatim>\<open>get-last-operation\<close> returns \<^verbatim>\<open>null\<close> when the logs directory cannot be listed or
  holds no name of the form \<^verbatim>\<open>operation_*.json\<close>; otherwise it reads the entry whose name is
  the greatest of those in the lexicographic order, and returns its parsed contents, or
  \<^verbatim>\<open>null\<close> when the entry cannot be read or is not JSON. The names that pass the filter are
  exactly those that begin with \<^verbatim>\<open>operation_\<close> and go on to end with \<^verbatim>\<open>.json\<close>.
\<close>

theorem get_last_operation_newest:
  "get_last_operation L e d =
     (case readdirSync d (getLogsPath L e) of
        None \<Rightarrow> JNull
      | Some names \<Rightarrow>
          (if filter is_operation_log names = [] then JNull
           else (case readFileSync d
                        (path_join L [getLogsPath L e, Max (set (filter is_operation_log names))]) of
                   None \<Rightarrow> JNull
                 | Some lastLog \<Rightarrow>
                     (case json_parse L lastLog of None \<Rightarrow> JNull | Some v \<Rightarrow> v))))
   \<and> (filter is_operation_log names \<noteq> [] \<longrightarrow>
        Max (set (filter is_operation_log names)) \<in> set names
        \<and> is_operation_log (Max (set (filter is_operation_log names)))
        \<and> (\<forall>f \<in> set names. is_operation_log f \<longrightarrow> f \<le> Max (set (filter is_operation_log names))))
   \<and> (is_operation_log f \<longleftrightarrow> (\<exists>mid. f = ''operation_'' @ mid @ ''.json''))"
proof (intro conjI impI)
  show "get_last_operation L e d =
     (case readdirSync d (getLogsPath L e) of
        None \<Rightarrow> JNull
      | Some names \<Rightarrow>
          (if filter is_operation_log names = [] then JNull
           else (case readFileSync d
                        (path_join L [getLogsPath L e, Max (set (filter is_operation_log names))]) of
                   None \<Rightarrow> JNull
                 | Some lastLog \<Rightarrow>
                     (case json_parse L lastLog of None \<Rightarrow> JNull | Some v \<Rightarrow> v))))"
    by (rule get_last_operation_eq)
next
  assume ne: "filter is_operation_log names \<noteq> []"
  let ?S = "set (filter is_operation_log names)"
  have fin: "finite ?S"
    by simp
  have ne': "?S \<noteq> {}"
    using ne by (simp only: set_empty not_False_eq_True)
  have mem: "Max ?S \<in> ?S"
    using Max_in [OF fin ne'] .
  then show "Max ?S \<in> set names" and "is_operation_log (Max ?S)"
    by simp_all
  show "\<forall>f \<in> set names. is_operation_log f \<longrightarrow> f \<le> Max ?S"
    using fin by (auto intro: Max_ge)
next
  show "is_operation_log f \<longleftrightarrow> (\<exists>mid. f = ''operation_'' @ mid @ ''.json'')"
    by (rule is_operation_log_glob)
qed

lemma sample_logs_path: "getLogsPath sample_lib sample_env = ''/home/u/app/logs''"
  by (simp add: getLogsPath_def sample_lib_def sample_env_def)

lemma sample_log_names:
  "filter is_operation_log [''operation_20240101_120000.json'', ''readme.txt'',
      ''operation_20240204_154800.json'', ''operation_old.json.bak''] =
   [''operation_20240101_120000.json'', ''operation_20240204_154800.json'']"
  by code_simp

lemma sample_newest:
  "Max (set [''operation_20240101_120000.json'', ''operation_20240204_154800.json'']) =
   ''operation_20240204_154800.json''"
  by code_simp
lemma sample_is_log: "is_operation_log ''operation_20240101_120000.json''"
  by code_simp

theorem get_last_operation_newest_witness:
  "get_last_operation sample_lib sample_env sample_disk = JObj []
   \<and> filter is_operation_log [''operation_20240101_120000.json'', ''readme.txt'',
      ''operation_20240204_154800.json'', ''operation_old.json.bak''] \<noteq> []
   \<and> is_operation_log ''operation_20240204_154800.json''
   \<and> ''operation_20240101_120000.json'' \<le> ''operation_20240204_154800.json''"
proof -
  let ?names = "[''operation_20240101_120000.json'', ''readme.txt'',
      ''operation_20240204_154800.json'', ''operation_old.json.bak'']"
  note t = get_last_operation_newest [of sample_lib sample_env sample_disk ?names "[]"]
  have dir: "readdirSync sample_disk ''/home/u/app/logs'' = Some ?names"
    by (simp add: sample_disk_def)
  have content: "readFileSync sample_disk ''/home/u/app/logs/operation_20240204_154800.json'' = Some ''{}''"
    by (simp add: sample_disk_def)
  have join: "path_join sample_lib [''/home/u/app/logs'', ''operation_20240204_154800.json''] =
      ''/home/u/app/logs/operation_20240204_154800.json''"
    by (simp add: sample_lib_def)
  have parse: "json_parse sample_lib ''{}'' = Some (JObj [])"
    by (simp add: sample_lib_def sample_parse_def)
  have ne: "filter is_operation_log ?names \<noteq> []"
    unfolding sample_log_names by simp
  have "get_last_operation sample_lib sample_env sample_disk = JObj []"
    unfolding t [THEN conjunct1] sample_logs_path dir option.case sample_log_names sample_newest
      join content parse
    by simp
  moreover have "is_operation_log ''operation_20240204_154800.json''"
    using t [THEN conjunct2, THEN conjunct1] ne unfolding sample_log_names sample_newest
    by (simp only: simp_thms)
  moreover have "''operation_20240101_120000.json'' \<le> ''operation_20240204_154800.json''"
    using t [THEN conjunct2, THEN conjunct1] ne unfolding sample_log_names sample_newest
    by (simp only: simp_thms list.set ball_simps insert_iff sample_is_log)
  ultimately show ?thesis
    using ne by simp
qed

section \<open>Runs of the backend\<close>

lemma data_events_accumulate:
  assumes "\<forall>ev \<in> set ds. is_data ev"
  shows "\<exists>m'. foldl (handle_event L) (m, r) ds =
           (m', r\<lparr>stdout := stdout r @ stdout_text ds, stderr := stderr r @ stderr_text ds\<rparr>)"
  using assms
proof (induction ds arbitrary: m r)
  case Nil
  then show ?case by simp
next
  case (Cons ev ds)
  then have rest: "\<forall>ev \<in> set ds. is_data ev" and "is_data ev"
    by simp_all
  then show ?case
  proof (cases ev)
    case (StdoutData chunk)
    obtain m1 where "foldl (handle_event L)
        (forward_lines L (split_on CHR 0x0A chunk) m, r\<lparr>stdout := stdout r @ chunk\<rparr>) ds =
        (m1, (r\<lparr>stdout := stdout r @ chunk\<rparr>)\<lparr>stdout := stdout (r\<lparr>stdout := stdout r @ chunk\<rparr>) @ stdout_text ds,
               stderr := stderr (r\<lparr>stdout := stdout r @ chunk\<rparr>) @ stderr_text ds\<rparr>)"
      using Cons.IH [OF rest] by blast
    with StdoutData show ?thesis
      by (simp add: on_stdout_def)
  next
    case (StderrData chunk)
    obtain m1 where "foldl (handle_event L)
        (send ''log-message'' (JObj [(''type'', JStr ''error''), (''message'', JStr chunk)]) m,
         r\<lparr>stderr := stderr r @ chunk\<rparr>) ds =
        (m1, (r\<lparr>stderr := stderr r @ chunk\<rparr>)\<lparr>stdout := stdout (r\<lparr>stderr := stderr r @ chunk\<rparr>) @ stdout_text ds,
               stderr := stderr (r\<lparr>stderr := stderr r @ chunk\<rparr>) @ stderr_text ds\<rparr>)"
      using Cons.IH [OF rest] by blast
    with StderrData show ?thesis
      by (simp add: on_stderr_def)
  next
    case (CloseEv code)
    with \<open>is_data ev\<close> show ?thesis by simp
  next
    case (ErrorEv msg)
    with \<open>is_data ev\<close> show ?thesis by simp
  qed
qed

lemma settled_stays:
  "settled r = Some out \<Longrightarrow> settled (snd (foldl (handle_event L) (m, r) evs)) = Some out"
proof (induction evs arbitrary: m r)
  case Nil
  then show ?case by simp
next
  case (Cons ev evs)
  obtain m1 r1 where step: "handle_event L (m, r) ev = (m1, r1)"
    by (cases "handle_event L (m, r) ev")
  have "settled r1 = Some out"
    using step Cons.prems
    by (cases ev) (auto simp: on_stdout_def on_stderr_def on_close_def on_error_def settle_def)
  from Cons.IH [OF this] step show ?case by simp
qed

lemma data_then_close:
  assumes "\<forall>ev \<in> set ds. is_data ev"
  shows "settled (snd (foldl (handle_event L) (m, fresh_closure) (ds @ CloseEv code # rest))) =
           Some (close_outcome L code (stdout_text ds) (stderr_text ds))"
proof -
  obtain m1 where acc: "foldl (handle_event L) (m, fresh_closure) ds =
      (m1, fresh_closure\<lparr>stdout := stdout fresh_closure @ stdout_text ds,
                         stderr := stderr fresh_closure @ stderr_text ds\<rparr>)"
    using data_events_accumulate [OF assms] by blast
  let ?r = "fresh_closure\<lparr>stdout := stdout_text ds, stderr := stderr_text ds\<rparr>"
  have "handle_event L (m1, ?r) (CloseEv code) =
          (m1\<lparr>pythonProcess := None\<rparr>,
           ?r\<lparr>settled := Some (close_outcome L code (stdout_text ds) (stderr_text ds))\<rparr>)"
    by (simp add: on_close_def settle_def fresh_closure_def)
  then show ?thesis
    using acc settled_stays [of "?r\<lparr>settled := Some (close_outcome L code (stdout_text ds) (stderr_text ds))\<rparr>"]
    by (simp add: fresh_closure_def)
qed

lemma runPython_data_then_close:
  assumes "world (getPythonPath e) (JStr (getCategorizerPath L e) # args) = Spawned (ds @ CloseEv code # rest)"
    and "\<forall>ev \<in> set ds. is_data ev"
  shows "snd (runPython L e world h args m) = Some (close_outcome L code (stdout_text ds) (stderr_text ds))"
proof -
  obtain m' r' where f: "foldl (handle_event L) (m\<lparr>pythonProcess := Some h\<rparr>, fresh_closure)
      (ds @ CloseEv code # rest) = (m', r')"
    by (cases "foldl (handle_event L) (m\<lparr>pythonProcess := Some h\<rparr>, fresh_closure)
      (ds @ CloseEv code # rest)")
  have "settled r' = Some (close_outcome L code (stdout_text ds) (stderr_text ds))"
    using data_then_close [OF assms(2), of L "m\<lparr>pythonProcess := Some h\<rparr>" code rest] f by simp
  then show ?thesis
    using assms(1) f by (simp add: runPython_def spawn_command_def)
qed



section \<open>A rejected run is reported, not thrown\<close>

text \<open>
  C4. Whenever the promise of \<^verbatim>\<open>runPython\<close> rejects with an error, each of the handlers
  \<^verbatim>\<open>scan-folder\<close>, \<^verbatim>\<open>simulate\<close>, \<^verbatim>\<open>categorize\<close> and \<^verbatim>\<open>undo\<close> returns the object
  \<^verbatim>\<open>{success: false, error: message}\<close> with the message of that error.
\<close>

theorem handlers_report_rejection:
  "(snd (runPython L e world h (scan_args folder) m) = Some (Rejected message) \<longrightarrow>
      snd (scan_folder_handler L e world h folder m) =
        Some (JObj [(''success'', JBool False), (''error'', JStr message)]))
   \<and> (snd (runPython L e world h (simulate_args L e opts) m) = Some (Rejected message) \<longrightarrow>
      snd (simulate_handler L e world h opts m) =
        Some (JObj [(''success'', JBool False), (''error'', JStr message)]))
   \<and> (snd (runPython L e world h (categorize_args L e opts) m) = Some (Rejected message) \<longrightarrow>
      snd (categorize_handler L e world h opts m) =
        Some (JObj [(''success'', JBool False), (''error'', JStr message)]))
   \<and> (snd (runPython L e world h (undo_args L e) m) = Some (Rejected message) \<longrightarrow>
      snd (undo_handler L e world h m) =
        Some (JObj [(''success'', JBool False), (''error'', JStr message)]))"
  by (simp add: scan_folder_handler_def simulate_handler_def categorize_handler_def
      undo_handler_def serve_def split: prod.splits)

lemma failing_backend_rejects:
  "snd (runPython L e failing_backend h args m) = Some (Rejected ''boom'')"
  by (simp add: runPython_def spawn_command_def failing_backend_def on_stderr_def on_close_def
      settle_def fresh_closure_def close_outcome_def)

theorem handlers_report_rejection_witness:
  "snd (runPython sample_lib sample_env failing_backend 0 (scan_args (JStr ''/data'')) idle) =
     Some (Rejected ''boom'')
   \<and> snd (scan_folder_handler sample_lib sample_env failing_backend 0 (JStr ''/data'') idle) =
     Some (JObj [(''success'', JBool False), (''error'', JStr ''boom'')])
   \<and> snd (simulate_handler sample_lib sample_env failing_backend 0
        \<lparr>folderPath = JStr ''/data'', modes = JArr [JStr ''extension''], advancedOptions = JUndefined\<rparr>
        idle) =
     Some (JObj [(''success'', JBool False), (''error'', JStr ''boom'')])
   \<and> snd (categorize_handler sample_lib sample_env failing_backend 0
        \<lparr>folderPath = JStr ''/data'', modes = JArr [JStr ''extension''], advancedOptions = JUndefined\<rparr>
        idle) =
     Some (JObj [(''success'', JBool False), (''error'', JStr ''boom'')])
   \<and> snd (undo_handler sample_lib sample_env failing_backend 0 idle) =
     Some (JObj [(''success'', JBool False), (''error'', JStr ''boom'')])"
  using handlers_report_rejection [of sample_lib sample_env failing_backend 0 "JStr ''/data''" idle
      "''boom''"
      "\<lparr>folderPath = JStr ''/data'', modes = JArr [JStr ''extension''], advancedOptions = JUndefined\<rparr>"]
  by (simp only: failing_backend_rejects simp_thms)

section \<open>Exit code 0 always resolves\<close>







section \<open>The result does not depend on progress reports\<close>

text \<open>
  C7. The promise of \<^verbatim>\<open>runPython\<close> settles with a value computed from the exit code and
  the concatenated text of the two streams alone. Two runs that write the same text and
  close with the same code settle alike, however the text is cut into chunks and
  whichever progress lines could be parsed and forwarded.
\<close>

theorem result_independent_of_progress:
  "(world (getPythonPath e) (JStr (getCategorizerPath L e) # args) =
        Spawned (ds @ CloseEv code # rest)
      \<and> (\<forall>ev \<in> set ds. is_data ev) \<longrightarrow>
      snd (runPython L e world h args m) =
        Some (close_outcome L code (stdout_text ds) (stderr_text ds)))
   \<and> (world (getPythonPath e) (JStr (getCategorizerPath L e) # args) =
        Spawned (ds @ CloseEv code # rest)
      \<and> world' (getPythonPath e) (JStr (getCategorizerPath L e) # args') =
        Spawned (ds' @ CloseEv code # rest')
      \<and> (\<forall>ev \<in> set ds. is_data ev) \<and> (\<forall>ev \<in> set ds'. is_data ev)
      \<and> stdout_text ds = stdout_text ds' \<and> stderr_text ds = stderr_text ds' \<longrightarrow>
      snd (runPython L e world h args m) = snd (runPython L e world' h' args' m'))"
proof (intro conjI impI)
  assume "world (getPythonPath e) (JStr (getCategorizerPath L e) # args) =
        Spawned (ds @ CloseEv code # rest) \<and> (\<forall>ev \<in> set ds. is_data ev)"
  then show "snd (runPython L e world h args m) =
      Some (close_outcome L code (stdout_text ds) (stderr_text ds))"
    using runPython_data_then_close [of world e L args ds code rest h m] by blast
next
  assume a: "world (getPythonPath e) (JStr (getCategorizerPath L e) # args) =
        Spawned (ds @ CloseEv code # rest)
      \<and> world' (getPythonPath e) (JStr (getCategorizerPath L e) # args') =
        Spawned (ds' @ CloseEv code # rest')
      \<and> (\<forall>ev \<in> set ds. is_data ev) \<and> (\<forall>ev \<in> set ds'. is_data ev)
      \<and> stdout_text ds = stdout_text ds' \<and> stderr_text ds = stderr_text ds'"
  then have "snd (runPython L e world h args m) =
      Some (close_outcome L code (stdout_text ds) (stderr_text ds))"
    using runPython_data_then_close [of world e L args ds code rest h m] by blast
  moreover from a have "snd (runPython L e world' h' args' m') =
      Some (close_outcome L code (stdout_text ds') (stderr_text ds'))"
    using runPython_data_then_close [of world' e L args' ds' code rest' h' m'] by blast
  ultimately show "snd (runPython L e world h args m) = snd (runPython L e world' h' args' m')"
    using a by simp
qed

lemma whole_backend_outbox:
  \<open>outbox (fst (runPython sample_lib sample_env whole_backend 0 args idle)) =
     [(''progress-update'', JObj [(''percent'', JNum 50)])]\<close>
  by (simp add: runPython_def spawn_command_def whole_backend_def on_stdout_def on_close_def
      settle_def fresh_closure_def idle_def send_def replace_first_def sample_lib_def
      sample_parse_def)

lemma split_backend_outbox:
  \<open>outbox (fst (runPython sample_lib sample_env split_backend 0 args idle)) = []\<close>
  by (simp add: runPython_def spawn_command_def split_backend_def on_stdout_def on_close_def
      settle_def fresh_closure_def idle_def send_def replace_first_def sample_lib_def
      sample_parse_def)

theorem result_independent_of_progress_witness:
  \<open>snd (runPython sample_lib sample_env whole_backend 0 (undo_args sample_lib sample_env) idle) =
     snd (runPython sample_lib sample_env split_backend 0 (undo_args sample_lib sample_env) idle)
   \<and> outbox (fst (runPython sample_lib sample_env whole_backend 0
                     (undo_args sample_lib sample_env) idle)) =
       [(''progress-update'', JObj [(''percent'', JNum 50)])]
   \<and> outbox (fst (runPython sample_lib sample_env split_backend 0
                     (undo_args sample_lib sample_env) idle)) = []\<close>
proof -
  let ?ds = \<open>[StdoutData (''PROGRESS:{"percent":50}'' @ [CHR 0x0A]),
              StdoutData (''RESULT:{"success":true}'' @ [CHR 0x0A])]\<close>
  let ?ds' = \<open>[StdoutData ''PROGRESS:{"perc'', StdoutData (''ent":50}'' @ [CHR 0x0A]),
               StdoutData (''RESULT:{"success":true}'' @ [CHR 0x0A])]\<close>
  have "snd (runPython sample_lib sample_env whole_backend 0 (undo_args sample_lib sample_env) idle) =
     snd (runPython sample_lib sample_env split_backend 0 (undo_args sample_lib sample_env) idle)"
    using result_independent_of_progress [of whole_backend sample_env sample_lib
        "undo_args sample_lib sample_env" ?ds "Some 0" "[]" 0 idle split_backend
        "undo_args sample_lib sample_env" ?ds' "[]" 0 idle, THEN conjunct2]
    by (simp add: whole_backend_def split_backend_def)
  then show ?thesis
    using whole_backend_outbox split_backend_outbox by simp
qed

section \<open>Progress reports\<close>

lemma replace_first_prefix:
  assumes "prefix ''PROGRESS:'' line"
  shows "replace_first ''PROGRESS:'' [] line = drop 9 line"
proof (cases line)
  case Nil
  with assms show ?thesis by simp
next
  case (Cons c cs)
  with assms have "find_sub ''PROGRESS:'' line = Some 0"
    by simp
  then show ?thesis
    by (simp add: replace_first_def eval_nat_numeral)
qed

lemma forward_lines_all_parse:
  assumes "\<forall>line \<in> set ls. prefix ''PROGRESS:'' line \<longrightarrow> json_parse L (drop 9 line) \<noteq> None"
  shows "outbox (forward_lines L ls m) =
           outbox m @ map (\<lambda>line. (''progress-update'', the (json_parse L (drop 9 line))))
                          (filter (prefix ''PROGRESS:'') ls)"
  using assms
proof (induction ls arbitrary: m)
  case Nil
  then show ?case by simp
next
  case (Cons line ls)
  then have rest: "\<forall>line \<in> set ls. prefix ''PROGRESS:'' line \<longrightarrow> json_parse L (drop 9 line) \<noteq> None"
    by simp
  show ?case
  proof (cases "prefix ''PROGRESS:'' line")
    case False
    with Cons.IH [OF rest, of m] show ?thesis
      by simp
  next
    case True
    with Cons.prems obtain v where v: "json_parse L (drop 9 line) = Some v"
      by auto
    have "forward_lines L (line # ls) m = forward_lines L ls (send ''progress-update'' v m)"
      using True v by (simp add: replace_first_prefix)
    with Cons.IH [OF rest, of "send ''progress-update'' v m"] True v show ?thesis
      by (simp add: send_def)
  qed
qed

text \<open>
  C6, as the code has it. When every line of a stdout chunk that begins with \<^verbatim>\<open>PROGRESS:\<close>
  is followed by text that parses as JSON, each of these lines is forwarded, in order, as a
  \<^verbatim>\<open>progress-update\<close> message that carries the parsed value. The renderer hands such a
  message to its listener, which for an object assigns \<^verbatim>\<open>String(percent) + '%'\<close> to the width
  of the bar when \<^verbatim>\<open>percent\<close> is not \<^verbatim>\<open>undefined\<close>, and \<^verbatim>\<open>String(message)\<close> to the progress
  text when \<^verbatim>\<open>message\<close> is truthy.
\<close>

theorem progress_lines_forwarded:
  "((\<forall>line \<in> set (progress_lines chunk). json_parse L (drop 9 line) \<noteq> None) \<longrightarrow>
      outbox (fst (on_stdout L chunk (m, r))) =
        outbox m @ map (\<lambda>line. (''progress-update'', the (json_parse L (drop 9 line))))
                       (progress_lines chunk))
   \<and> receive (''progress-update'', data) d = onProgressUpdate data d
   \<and> onProgressUpdate (JObj kvs) d =
       Some \<lparr>progressFill_width =
               (case map_of kvs ''percent'' of
                  None \<Rightarrow> progressFill_width d
                | Some percent \<Rightarrow>
                    if percent = JUndefined then progressFill_width d
                    else js_to_string percent @ ''%''),
             progressText =
               (case map_of kvs ''message'' of
                  None \<Rightarrow> progressText d
                | Some message \<Rightarrow>
                    if truthy message then js_to_string message else progressText d)\<rparr>"
proof (intro conjI impI)
  assume "\<forall>line \<in> set (progress_lines chunk). json_parse L (drop 9 line) \<noteq> None"
  then have "\<forall>line \<in> set (split_on CHR 0x0A chunk).
      prefix ''PROGRESS:'' line \<longrightarrow> json_parse L (drop 9 line) \<noteq> None"
    by (simp add: progress_lines_def)
  from forward_lines_all_parse [OF this, of m]
  show "outbox (fst (on_stdout L chunk (m, r))) =
        outbox m @ map (\<lambda>line. (''progress-update'', the (json_parse L (drop 9 line))))
                       (progress_lines chunk)"
    by (simp add: on_stdout_def progress_lines_def)
next
  show "receive (''progress-update'', data) d = onProgressUpdate data d"
    by (simp add: receive_def)
next
  show "onProgressUpdate (JObj kvs) d =
       Some \<lparr>progressFill_width =
               (case map_of kvs ''percent'' of
                  None \<Rightarrow> progressFill_width d
                | Some percent \<Rightarrow>
                    if percent = JUndefined then progressFill_width d
                    else js_to_string percent @ ''%''),
             progressText =
               (case map_of kvs ''message'' of
                  None \<Rightarrow> progressText d
                | Some message \<Rightarrow>
                    if truthy message then js_to_string message else progressText d)\<rparr>"
    by (cases "map_of kvs ''percent''"; cases "map_of kvs ''message''")
       (simp_all add: onProgressUpdate_def Let_def)
qed

lemma sample_chunk_lines:
  \<open>progress_lines (''PROGRESS:{"percent":50}'' @ [CHR 0x0A] @ ''moving'' @ [CHR 0x0A]
                    @ ''PROGRESS:{}'' @ [CHR 0x0A]) =
     [''PROGRESS:{"percent":50}'', ''PROGRESS:{}'']\<close>
  by (simp add: progress_lines_def)

lemma sample_parses:
  \<open>json_parse sample_lib (drop 9 ''PROGRESS:{"percent":50}'') = Some (JObj [(''percent'', JNum 50)])\<close>
  \<open>json_parse sample_lib (drop 9 ''PROGRESS:{}'') = Some (JObj [])\<close>
  by (simp_all add: sample_lib_def sample_parse_def)

theorem progress_lines_forwarded_witness:
  \<open>progress_lines (''PROGRESS:{"percent":50}'' @ [CHR 0x0A] @ ''moving'' @ [CHR 0x0A]
                    @ ''PROGRESS:{}'' @ [CHR 0x0A]) =
     [''PROGRESS:{"percent":50}'', ''PROGRESS:{}'']
   \<and> json_parse sample_lib (drop 9 ''PROGRESS:{"percent":50}'') =
       Some (JObj [(''percent'', JNum 50)])
   \<and> json_parse sample_lib (drop 9 ''PROGRESS:{}'') = Some (JObj [])
   \<and> outbox (fst (on_stdout sample_lib
        (''PROGRESS:{"percent":50}'' @ [CHR 0x0A] @ ''moving'' @ [CHR 0x0A] @ ''PROGRESS:{}'' @ [CHR 0x0A])
        (idle, fresh_closure))) =
       [(''progress-update'', JObj [(''percent'', JNum 50)]), (''progress-update'', JObj [])]
   \<and> receive (''progress-update'', JObj [(''percent'', JNum 50)])
         \<lparr>progressFill_width = ''0%'', progressText = ''Moving files...''\<rparr> =
       Some \<lparr>progressFill_width = ''50%'', progressText = ''Moving files...''\<rparr>\<close>
proof -
  let ?chunk = \<open>''PROGRESS:{"percent":50}'' @ [CHR 0x0A] @ ''moving'' @ [CHR 0x0A]
                    @ ''PROGRESS:{}'' @ [CHR 0x0A]\<close>
  let ?d = "\<lparr>progressFill_width = ''0%'', progressText = ''Moving files...''\<rparr>"
  note t = progress_lines_forwarded [of ?chunk sample_lib idle fresh_closure
      "JObj [(''percent'', JNum 50)]" ?d "[(''percent'', JNum 50)]"]
  have hyp: "\<forall>line \<in> set (progress_lines ?chunk). json_parse sample_lib (drop 9 line) \<noteq> None"
    unfolding sample_chunk_lines using sample_parses by simp
  have fifty: "js_to_string (JNum 50) = ''50''"
    by code_simp
  have "outbox (fst (on_stdout sample_lib ?chunk (idle, fresh_closure))) =
       [(''progress-update'', JObj [(''percent'', JNum 50)]), (''progress-update'', JObj [])]"
    using t [THEN conjunct1] hyp unfolding sample_chunk_lines
    using sample_parses by (simp add: idle_def)
  moreover have "receive (''progress-update'', JObj [(''percent'', JNum 50)]) ?d =
       Some \<lparr>progressFill_width = ''50%'', progressText = ''Moving files...''\<rparr>"
    using t [THEN conjunct2] fifty by simp
  ultimately show ?thesis
    using sample_chunk_lines sample_parses by blast
qed

text \<open>
  The claim as first stated fails: a line that the backend wrote, \<^verbatim>\<open>PROGRESS:\<close> followed by
  valid JSON, is not forwarded when it reaches the handler cut into two chunks; and a
  message that is present but empty does not replace the progress text.
\<close>

theorem progress_line_lost_counterexample:
  \<open>stdout_text [StdoutData ''PROGRESS:{"perc'', StdoutData (''ent":50}'' @ [CHR 0x0A]),
                 StdoutData (''RESULT:{"success":true}'' @ [CHR 0x0A])] =
     ''PROGRESS:{"percent":50}'' @ [CHR 0x0A] @ ''RESULT:{"success":true}'' @ [CHR 0x0A]
   \<and> json_parse sample_lib ''{"percent":50}'' = Some (JObj [(''percent'', JNum 50)])
   \<and> outbox (fst (runPython sample_lib sample_env split_backend 0
                     (categorize_args sample_lib sample_env
                        \<lparr>folderPath = JStr ''/data'', modes = JArr [JStr ''extension''],
                         advancedOptions = JObj []\<rparr>) idle)) = []
   \<and> onProgressUpdate (JObj [(''percent'', JNum 50), (''message'', JStr [])])
         \<lparr>progressFill_width = ''0%'', progressText = ''Moving files...''\<rparr> =
       Some \<lparr>progressFill_width = ''50%'', progressText = ''Moving files...''\<rparr>\<close>
proof -
  have "js_to_string (JNum 50) = ''50''"
    by code_simp
  then show ?thesis
    using split_backend_outbox
    by (simp add: sample_lib_def sample_parse_def onProgressUpdate_def)
qed

section \<open>The shared process reference\<close>



















section \<open>Clusters and the threshold\<close>





























text \<open>
  Nor is the number of clusters monotone the other way round: here raising the threshold
  from 60 to 75 turns three clusters into two.
\<close>

lemma cluster_count_not_monotone:
  "length (cluster_stems levenshtein_score 60 [''aycdz'', ''abcd'', ''xbcd'', ''abcx'']) = 3
   \<and> length (cluster_stems levenshtein_score 75 [''aycdz'', ''abcd'', ''xbcd'', ''abcx'']) = 2"
  by code_simp

section \<open>Execute, then undo\<close>

lemma map_of_filter_neq:
  "map_of (filter (\<lambda>(p, c). p \<noteq> s) xs) = (map_of xs)(s := None)"
  by (induction xs) (auto simp: fun_eq_iff)

lemma dom_lookup: "dom (lookup fs) = fst ` set (files fs)"
  unfolding lookup_def by (rule dom_map_of_conv_image_fst)

lemma move_file_SomeD:
  assumes "move_file fs s d = Some fs'"
  obtains c where "lookup fs s = Some c" and "lookup fs d = None" and "d \<notin> set (dirs fs)"
    and "d \<noteq> []" and "butlast d \<in> set (dirs fs)"
    and "lookup fs' = (lookup fs)(s := None, d \<mapsto> c)" and "dirs fs' = dirs fs"
proof -
  from assms obtain c where c: "lookup fs s = Some c"
    unfolding move_file_def by (cases "lookup fs s") auto
  with assms have cond: "lookup fs d = None" "d \<notin> set (dirs fs)" "d \<noteq> []" "butlast d \<in> set (dirs fs)"
    and fs': "fs' = fs\<lparr>files := (d, c) # filter (\<lambda>(p, c). p \<noteq> s) (files fs)\<rparr>"
    unfolding move_file_def by (auto split: if_splits)
  have "lookup fs' = (lookup fs)(s := None, d \<mapsto> c)"
    unfolding fs' lookup_def by (simp add: map_of_filter_neq)
  moreover have "dirs fs' = dirs fs"
    unfolding fs' by simp
  ultimately show ?thesis
    using that c cond by blast
qed


lemma wf_lookup:
  assumes "well_formed fs" and "lookup fs p = Some c"
  shows "p \<notin> set (dirs fs)" and "butlast p \<in> set (dirs fs)" and "p \<noteq> []"
proof -
  from assms(2) have "p \<in> fst ` set (files fs)"
    using dom_lookup [of fs] by auto
  with assms(1) show a: "p \<notin> set (dirs fs)" and "butlast p \<in> set (dirs fs)"
    unfolding well_formed_def by auto
  from assms(1) have "[] \<in> set (dirs fs)"
    unfolding well_formed_def by simp
  with a show "p \<noteq> []"
    by auto
qed

lemma wfI:
  assumes "[] \<in> set (dirs fs)"
    and "\<And>p. p \<in> set (dirs fs) \<Longrightarrow> butlast p \<in> set (dirs fs)"
    and "\<And>p c. lookup fs p = Some c \<Longrightarrow> p \<notin> set (dirs fs) \<and> butlast p \<in> set (dirs fs)"
  shows "well_formed fs"
proof -
  have "p \<notin> set (dirs fs) \<and> butlast p \<in> set (dirs fs)" if "p \<in> fst ` set (files fs)" for p
  proof -
    from that have "p \<in> dom (lookup fs)"
      by (simp only: dom_lookup)
    then obtain c where "lookup fs p = Some c"
      by auto
    then show ?thesis
      by (rule assms(3))
  qed
  with assms(1,2) show ?thesis
    unfolding well_formed_def by blast
qed

lemma wf_move:
  assumes w: "well_formed fs" and m: "move_file fs s d = Some fs'"
  shows "well_formed fs'"
proof -
  from m obtain c where c: "lookup fs s = Some c" and free: "d \<notin> set (dirs fs)"
    and par: "butlast d \<in> set (dirs fs)"
    and lk: "lookup fs' = (lookup fs)(s := None, d \<mapsto> c)" and ds: "dirs fs' = dirs fs"
    by (rule move_file_SomeD)
  show ?thesis
  proof (rule wfI)
    show "[] \<in> set (dirs fs')"
      using w unfolding ds well_formed_def by simp
    show "butlast p \<in> set (dirs fs')" if "p \<in> set (dirs fs')" for p
      using w that unfolding ds well_formed_def by simp
    show "p \<notin> set (dirs fs') \<and> butlast p \<in> set (dirs fs')" if "lookup fs' p = Some x" for p x
    proof (cases "p = d")
      case True
      with free par show ?thesis unfolding ds by simp
    next
      case False
      with that have "lookup fs p = Some x"
        unfolding lk by (auto split: if_splits)
      with w show ?thesis
        unfolding ds using wf_lookup(1,2) by blast
    qed
  qed
qed

lemma folders_of_iff:
  "p \<in> set (folders_of d) \<longleftrightarrow> (\<exists>n. 1 \<le> n \<and> n \<le> length d \<and> p = take n d)"
  unfolding folders_of_def by auto


lemma folders_of_parent:
  assumes "p \<in> set (folders_of d)"
  shows "butlast p = [] \<or> butlast p \<in> set (folders_of d)"
proof -
  from assms obtain n where n: "1 \<le> n" "n \<le> length d" "p = take n d"
    unfolding folders_of_iff by blast
  then have b: "butlast p = take (n - 1) d"
    by (simp add: butlast_take)
  show ?thesis
  proof (cases "n = 1")
    case True
    with b show ?thesis by simp
  next
    case False
    with n have "1 \<le> n - 1" "n - 1 \<le> length d"
      by simp_all
    with b show ?thesis
      unfolding folders_of_iff by blast
  qed
qed

lemma create_folder_SomeD:
  assumes "create_folder fs d = Some (fs', new)"
  shows "lookup fs' = lookup fs"
    and "set (dirs fs') = set (dirs fs) \<union> set (folders_of d)"
    and "new = filter (\<lambda>p. p \<notin> set (dirs fs)) (folders_of d)"
    and "\<forall>p \<in> set (folders_of d). lookup fs p = None"
proof -
  from assms have none: "\<not> (\<exists>p \<in> set (folders_of d). lookup fs p \<noteq> None)"
    unfolding create_folder_def by (auto split: if_splits)
  with assms have new: "new = filter (\<lambda>p. p \<notin> set (dirs fs)) (folders_of d)"
    and fs': "fs' = fs\<lparr>dirs := dirs fs @ filter (\<lambda>p. p \<notin> set (dirs fs)) (folders_of d)\<rparr>"
    unfolding create_folder_def by (auto simp: Let_def)
  show "new = filter (\<lambda>p. p \<notin> set (dirs fs)) (folders_of d)"
    by (rule new)
  show "lookup fs' = lookup fs"
    unfolding fs' lookup_def by simp
  show "set (dirs fs') = set (dirs fs) \<union> set (folders_of d)"
    unfolding fs' by auto
  show "\<forall>p \<in> set (folders_of d). lookup fs p = None"
    using none by blast
qed

lemma wf_create:
  assumes w: "well_formed fs" and c: "create_folder fs d = Some (fs', new)"
  shows "well_formed fs'"
proof (rule wfI)
  note lk = create_folder_SomeD(1) [OF c] and ds = create_folder_SomeD(2) [OF c]
    and free = create_folder_SomeD(4) [OF c]
  from w have root: "[] \<in> set (dirs fs)"
    unfolding well_formed_def by simp
  then show "[] \<in> set (dirs fs')"
    unfolding ds by simp
  show "butlast p \<in> set (dirs fs')" if "p \<in> set (dirs fs')" for p
  proof (cases "p \<in> set (dirs fs)")
    case True
    with w show ?thesis unfolding ds well_formed_def by simp
  next
    case False
    with that have "p \<in> set (folders_of d)"
      unfolding ds by simp
    from folders_of_parent [OF this] root show ?thesis
      unfolding ds by auto
  qed
  show "p \<notin> set (dirs fs') \<and> butlast p \<in> set (dirs fs')" if "lookup fs' p = Some x" for p x
  proof -
    from that have l: "lookup fs p = Some x"
      unfolding lk .
    with free have "p \<notin> set (folders_of d)"
      by auto
    with wf_lookup(1,2) [OF w l] show ?thesis
      unfolding ds by simp
  qed
qed



text \<open>The three ways one plan entry can go.\<close>

lemma execute_step:
  obtains (blocked) "create_folder fs (butlast d) = None"
      and "execute_plan movable fs ((s, d) # rest) =
           (execute_plan movable fs rest)\<lparr>errors := (s, d) # errors (execute_plan movable fs rest)\<rparr>"
    | (failed) fs1 new where "create_folder fs (butlast d) = Some (fs1, new)"
      and "execute_plan movable fs ((s, d) # rest) =
           (execute_plan movable fs1 rest)\<lparr>errors := (s, d) # errors (execute_plan movable fs1 rest)\<rparr>"
    | (moved) fs1 new fs2 where "create_folder fs (butlast d) = Some (fs1, new)"
      and "move_file fs1 s d = Some fs2"
      and "execute_plan movable fs ((s, d) # rest) =
           (execute_plan movable fs2 rest)
             \<lparr>oplog := \<lparr>source = s, destination = d, made = new\<rparr> # oplog (execute_plan movable fs2 rest)\<rparr>"
proof (cases "create_folder fs (butlast d)")
  case None
  then show ?thesis
    using blocked by (simp add: Let_def)
next
  case (Some a)
  obtain fs1 new where a: "a = (fs1, new)"
    by (cases a)
  show ?thesis
  proof (cases "if movable s then move_file fs1 s d else None")
    case None
    with Some a show ?thesis
      using failed [of fs1 new] by (simp add: Let_def)
  next
    case (Some fs2)
    then have "move_file fs1 s d = Some fs2"
      by (simp split: if_splits)
    with Some \<open>create_folder fs (butlast d) = Some a\<close> a show ?thesis
      using moved [of fs1 new fs2] by (simp add: Let_def)
  qed
qed

lemma wf_execute: "well_formed fs \<Longrightarrow> well_formed (after (execute_plan movable fs plan))"
proof (induction plan arbitrary: fs)
  case Nil
  then show ?case by simp
next
  case (Cons e rest)
  obtain s d where e: "e = (s, d)"
    by (cases e)
  show ?case
  proof (cases rule: execute_step [of fs d movable s rest])
    case blocked
    with Cons show ?thesis unfolding e by simp
  next
    case (failed fs1 new)
    have "well_formed fs1"
      using Cons.prems failed(1) by (rule wf_create)
    with Cons.IH failed(2) show ?thesis unfolding e by simp
  next
    case (moved fs1 new fs2)
    have "well_formed fs1"
      using Cons.prems moved(1) by (rule wf_create)
    then have "well_formed fs2"
      using moved(2) by (rule wf_move)
    with Cons.IH moved(3) show ?thesis unfolding e by simp
  qed
qed

























text \<open>
  The condition on the plan is needed: when a file without extension is moved away first and
  a folder of its name is created afterwards, undo cannot move the file back, since folders
  are only removed after all entries are replayed.
\<close>

lemma folder_at_source_blocks_restore:
  "lookup \<lparr>files = [([''d'', ''pdf''], ''P''), ([''d'', ''x.pdf''], ''X'')], dirs = [[], [''d'']]\<rparr>
      [''d'', ''pdf''] = Some ''P''
   \<and> errors (execute_plan (\<lambda>p. True)
        \<lparr>files = [([''d'', ''pdf''], ''P''), ([''d'', ''x.pdf''], ''X'')], dirs = [[], [''d'']]\<rparr>
        [([''d'', ''pdf''], [''d'', ''no_extension'', ''pdf'']),
         ([''d'', ''x.pdf''], [''d'', ''pdf'', ''x.pdf''])]) = []
   \<and> files (undo (after (execute_plan (\<lambda>p. True)
        \<lparr>files = [([''d'', ''pdf''], ''P''), ([''d'', ''x.pdf''], ''X'')], dirs = [[], [''d'']]\<rparr>
        [([''d'', ''pdf''], [''d'', ''no_extension'', ''pdf'']),
         ([''d'', ''x.pdf''], [''d'', ''pdf'', ''x.pdf''])]))
      (oplog (execute_plan (\<lambda>p. True)
        \<lparr>files = [([''d'', ''pdf''], ''P''), ([''d'', ''x.pdf''], ''X'')], dirs = [[], [''d'']]\<rparr>
        [([''d'', ''pdf''], [''d'', ''no_extension'', ''pdf'']),
         ([''d'', ''x.pdf''], [''d'', ''pdf'', ''x.pdf''])]))) =
     [([''d'', ''x.pdf''], ''X''), ([''d'', ''no_extension'', ''pdf''], ''P'')]"
  by code_simp

end
